theory Spec2Isabelle
  imports Complex_Main "HOL-Library.Word"
begin

section \<open>Text2-Image-Studio: the application state controller\<close>

text \<open>
  The embedding follows the component \<^verbatim>\<open>App\<close> with its hooks and handlers
  (\<^verbatim>\<open>src/unnamed/part_002\<close>), the types it imports from \<^verbatim>\<open>./types\<close>
  (\<^verbatim>\<open>src/unnamed/part_000\<close>) and \<^verbatim>\<open>src/components/ImageCard.tsx\<close>.

  A JavaScript string is a sequence of 16-bit code units. ASCII literals of the source are
  written with \<open>js\<close>.
\<close>

type_synonym jsstring = "16 word list"

definition js :: "string \<Rightarrow> jsstring" where
  "js s = map of_char s"

subsection \<open>Types\<close>

datatype AspectRatio = R1_1 | R16_9 | R9_16 | R4_3 | R3_4

datatype Page = home | about | contact | privacy | terms | disclaimer

datatype Theme = dark | light

text \<open>
  \<^verbatim>\<open>interface GeneratedImage { id; url; prompt; timestamp }\<close>. The field \<^verbatim>\<open>id\<close> is
  written \<open>id'\<close> (HOL has a constant \<open>id\<close>). A timestamp is what \<^verbatim>\<open>Date.now()\<close>
  returns: an integral number of milliseconds.
\<close>

record GeneratedImage =
  id' :: jsstring
  url :: jsstring
  prompt :: jsstring
  timestamp :: int

subsection \<open>The hooks of \<^verbatim>\<open>App\<close>\<close>

text \<open>
  One field per \<^verbatim>\<open>useState\<close> hook that the generation, edit and history handlers read
  or write. The hook \<^verbatim>\<open>prompt\<close> is \<open>prompt_st\<close> (the record \<open>GeneratedImage\<close> has a
  field \<open>prompt\<close>). The contact form's hooks are left out: no handler modelled here
  touches them.
\<close>

record App =
  images :: "GeneratedImage list"
  prompt_st :: jsstring
  aspectRatio :: AspectRatio
  isGenerating :: bool
  isEditingId :: "jsstring option"
  error :: "jsstring option"
  theme :: Theme
  activePage :: Page

definition initial :: App where
  "initial = \<lparr>images = [], prompt_st = [], aspectRatio = R1_1, isGenerating = False,
     isEditingId = None, error = None, theme = dark, activePage = home\<rparr>"

subsection \<open>The platform: \<^verbatim>\<open>String.prototype.trim\<close>\<close>

text \<open>
  \<^verbatim>\<open>trim\<close> removes leading and trailing WhiteSpace and LineTerminator code points
  (ECMAScript): TAB, LF, VT, FF, CR, SP, NBSP, the Unicode space separators, LS, PS and
  the byte order mark.
\<close>

definition is_js_whitespace :: "16 word \<Rightarrow> bool" where
  "is_js_whitespace c \<longleftrightarrow>
     c \<in> {0x0009, 0x000A, 0x000B, 0x000C, 0x000D, 0x0020, 0x00A0, 0x1680,
          0x2028, 0x2029, 0x202F, 0x205F, 0x3000, 0xFEFF}
     \<or> (0x2000 \<le> unat c \<and> unat c \<le> 0x200A)"

definition trim :: "jsstring \<Rightarrow> jsstring" where
  "trim s = rev (dropWhile is_js_whitespace (rev (dropWhile is_js_whitespace s)))"

subsection \<open>The image service\<close>

text \<open>
  \<^verbatim>\<open>generateImageFromText\<close> and \<^verbatim>\<open>editExistingImage\<close> live in
  \<^verbatim>\<open>services/geminiService\<close>; the handlers only see a promise that resolves to a url
  or rejects with an error whose \<^verbatim>\<open>message\<close> is a string or undefined. The result of
  a call is therefore a parameter of the handlers, and so are the values of
  \<^verbatim>\<open>Math.random().toString(36).substr(2, 9)\<close> and \<^verbatim>\<open>Date.now()\<close>.
  A handler returns the new state together with the requests it has sent.
\<close>

datatype request =
    GenerateImage jsstring AspectRatio
  | EditImage jsstring jsstring

datatype outcome =
    Resolved jsstring
  | Rejected "jsstring option"

subsection \<open>\<^verbatim>\<open>handleGenerate\<close>\<close>

text \<open>
  The part of \<^verbatim>\<open>handleGenerate\<close> after the \<^verbatim>\<open>await\<close>: \<open>p\<close> is the prompt the
  closure captured, \<open>s\<close> the state when the promise settles (\<^verbatim>\<open>setImages\<close> gets an
  updater function, so it reads the images of that moment). The \<^verbatim>\<open>finally\<close> block
  runs on both paths.
\<close>

definition generate_settle :: "jsstring \<Rightarrow> outcome \<Rightarrow> jsstring \<Rightarrow> int \<Rightarrow> App \<Rightarrow> App" where
  "generate_settle p out rid now s =
     (case out of
        Resolved u \<Rightarrow>
          s\<lparr>images := \<lparr>id' = rid, url = u, prompt = p, timestamp = now\<rparr> # images s,
            prompt_st := []\<rparr>
      | Rejected m \<Rightarrow>
          s\<lparr>error := Some (case m of
                 None \<Rightarrow> js ''Failed to generate image. Please check your API key and try again.''
               | Some t \<Rightarrow> if t = []
                   then js ''Failed to generate image. Please check your API key and try again.''
                   else t)\<rparr>)
     \<lparr>isGenerating := False\<rparr>"

text \<open>
  The whole handler, for a call whose promise settles with \<open>out\<close> before any other event:
  the guard, the two setters before the call, the call, and the rest.
\<close>

definition handleGenerate :: "outcome \<Rightarrow> jsstring \<Rightarrow> int \<Rightarrow> App \<Rightarrow> App \<times> request list" where
  "handleGenerate out rid now s =
     (if trim (prompt_st s) = [] \<or> isGenerating s then (s, [])
      else (generate_settle (prompt_st s) out rid now (s\<lparr>isGenerating := True, error := None\<rparr>),
            [GenerateImage (prompt_st s) (aspectRatio s)]))"

subsection \<open>\<^verbatim>\<open>handleEdit\<close>\<close>

text \<open>
  After the \<^verbatim>\<open>await\<close>: \<open>target\<close> is the record that \<^verbatim>\<open>images.find\<close> returned when
  the handler was called, \<open>s\<close> the state when the promise settles.
\<close>

definition edit_settle ::
    "jsstring \<Rightarrow> jsstring \<Rightarrow> GeneratedImage \<Rightarrow> outcome \<Rightarrow> int \<Rightarrow> App \<Rightarrow> App" where
  "edit_settle i editPrompt target out now s =
     (case out of
        Resolved newUrl \<Rightarrow>
          s\<lparr>images :=
              map (\<lambda>img. if id' img = i
                 then target\<lparr>url := newUrl,
                        prompt := prompt target @ js '' (Edit: '' @ editPrompt @ js '')'',
                        timestamp := now\<rparr>
                 else img) (images s)\<rparr>
      | Rejected m \<Rightarrow>
          s\<lparr>error := Some (js ''Editing failed: '' @
                 (case m of None \<Rightarrow> js ''undefined'' | Some t \<Rightarrow> t))\<rparr>)
     \<lparr>isEditingId := None\<rparr>"

definition handleEdit ::
    "outcome \<Rightarrow> int \<Rightarrow> jsstring \<Rightarrow> jsstring \<Rightarrow> App \<Rightarrow> App \<times> request list" where
  "handleEdit out now i editPrompt s =
     (case find (\<lambda>img. id' img = i) (images s) of
        None \<Rightarrow> (s, [])
      | Some targetImage \<Rightarrow>
          (edit_settle i editPrompt targetImage out now
             (s\<lparr>isEditingId := Some i, error := None\<rparr>),
           [EditImage editPrompt (url targetImage)]))"

text \<open>
  The part of \<^verbatim>\<open>handleEdit\<close> before the \<^verbatim>\<open>await\<close>, for the edits that are in flight
  together: the state after the two setters, the record the closure keeps and the request
  sent; \<open>None\<close> when the handler returns at once.
\<close>

definition handleEdit_start ::
    "jsstring \<Rightarrow> jsstring \<Rightarrow> App \<Rightarrow> (App \<times> GeneratedImage \<times> request) option" where
  "handleEdit_start i editPrompt s =
     (case find (\<lambda>img. id' img = i) (images s) of
        None \<Rightarrow> None
      | Some targetImage \<Rightarrow>
          Some (s\<lparr>isEditingId := Some i, error := None\<rparr>, targetImage,
                EditImage editPrompt (url targetImage)))"

subsection \<open>\<^verbatim>\<open>ImageCard\<close>: the form that calls \<^verbatim>\<open>handleEdit\<close>\<close>

text \<open>
  The card shows one record (\<^verbatim>\<open>image\<close>) and keeps the text of its edit form. \<^verbatim>\<open>App\<close>
  passes \<^verbatim>\<open>onEdit = handleEdit\<close> and \<^verbatim>\<open>isEditing = (isEditingId === image.id)\<close>.
\<close>

record ImageCard =
  image :: GeneratedImage
  editPrompt :: jsstring
  showEdit :: bool

definition handleEditSubmit ::
    "outcome \<Rightarrow> int \<Rightarrow> ImageCard \<Rightarrow> App \<Rightarrow> ImageCard \<times> App \<times> request list" where
  "handleEditSubmit out now cd s =
     (if trim (editPrompt cd) = [] \<or> isEditingId s = Some (id' (image cd))
      then (cd, s, [])
      else (case handleEdit out now (id' (image cd)) (editPrompt cd) s of
              (s', reqs) \<Rightarrow> (cd\<lparr>editPrompt := [], showEdit := False\<rparr>, s', reqs)))"

text \<open>The form up to the \<^verbatim>\<open>await\<close> inside \<^verbatim>\<open>onEdit\<close>.\<close>

definition handleEditSubmit_start ::
    "ImageCard \<Rightarrow> App \<Rightarrow> (App \<times> GeneratedImage \<times> request) option" where
  "handleEditSubmit_start cd s =
     (if trim (editPrompt cd) = [] \<or> isEditingId s = Some (id' (image cd)) then None
      else handleEdit_start (id' (image cd)) (editPrompt cd) s)"

subsection \<open>\<^verbatim>\<open>clearHistory\<close>\<close>

text \<open>\<open>confirmed\<close> is the answer of \<^verbatim>\<open>window.confirm\<close>.\<close>

definition clearHistory :: "bool \<Rightarrow> App \<Rightarrow> App" where
  "clearHistory confirmed s = (if confirmed then s\<lparr>images := []\<rparr> else s)"

section \<open>Persistence: \<^verbatim>\<open>JSON.stringify\<close>, \<^verbatim>\<open>JSON.parse\<close> and \<^verbatim>\<open>localStorage\<close>\<close>

subsection \<open>JSON values\<close>

text \<open>
  What \<^verbatim>\<open>JSON.parse\<close> can return. A number carries the exact value of its literal:
  rounding to an IEEE double, overflow to infinity and the sign of zero are not modelled
  (every integer up to \<open>2\<^sup>5\<^sup>3\<close> in absolute value, so every \<^verbatim>\<open>Date.now()\<close>, is exact).
  An object is the list of its properties in the order of the text, a repeated key
  replacing the value in place; JavaScript lists keys that are array indices first, in
  ascending order, which is not modelled either. The values read from the texts that
  \<open>JSON_stringify\<close> below writes for valid records lie inside these limits, and the
  properties that follow evaluate the parser on other texts only where it returns
  \<open>JNull\<close> or nothing.
\<close>

datatype json =
    JNull
  | JBool bool
  | JNumber rat
  | JString jsstring
  | JArray "json list"
  | JObject "(jsstring \<times> json) list"

fun set_property :: "'k \<Rightarrow> 'v \<Rightarrow> ('k \<times> 'v) list \<Rightarrow> ('k \<times> 'v) list" where
  "set_property k v [] = [(k, v)]"
| "set_property k v ((k', v') # ps) =
     (if k' = k then (k', v) # ps else (k', v') # set_property k v ps)"

text \<open>
  The value a typed record is at run time: an object with the four properties in the
  order of the object literal in \<^verbatim>\<open>handleGenerate\<close> (the spread in \<^verbatim>\<open>handleEdit\<close>
  keeps that order).
\<close>

definition json_of_image :: "GeneratedImage \<Rightarrow> json" where
  "json_of_image img = JObject
     [(js ''id'', JString (id' img)), (js ''url'', JString (url img)),
      (js ''prompt'', JString (prompt img)),
      (js ''timestamp'', JNumber (of_int (timestamp img)))]"

definition json_of_images :: "GeneratedImage list \<Rightarrow> json" where
  "json_of_images imgs = JArray (map json_of_image imgs)"

subsection \<open>\<^verbatim>\<open>JSON.stringify\<close> on a sequence of records\<close>

text \<open>
  \<^verbatim>\<open>QuoteJSONString\<close> (ECMAScript 2019 and later): the two-character escapes, \<^verbatim>\<open>\uXXXX\<close>
  with lower-case digits for the other control characters and for a surrogate that is
  not part of a pair, every other code unit as it is.
\<close>

definition hex_digit :: "nat \<Rightarrow> 16 word" where
  "hex_digit d = of_nat (if d < 10 then 0x30 + d else 0x61 + (d - 10))"

definition UnicodeEscape :: "16 word \<Rightarrow> jsstring" where
  "UnicodeEscape c =
     [0x5C, 0x75, hex_digit (unat c div 4096), hex_digit (unat c div 256 mod 16),
      hex_digit (unat c div 16 mod 16), hex_digit (unat c mod 16)]"

definition is_leading_surrogate :: "16 word \<Rightarrow> bool" where
  "is_leading_surrogate c \<longleftrightarrow> 0xD800 \<le> unat c \<and> unat c \<le> 0xDBFF"

definition is_trailing_surrogate :: "16 word \<Rightarrow> bool" where
  "is_trailing_surrogate c \<longleftrightarrow> 0xDC00 \<le> unat c \<and> unat c \<le> 0xDFFF"

definition quote_unit :: "16 word \<Rightarrow> jsstring" where
  "quote_unit c =
     (if c = 0x08 then [0x5C, 0x62]
      else if c = 0x09 then [0x5C, 0x74]
      else if c = 0x0A then [0x5C, 0x6E]
      else if c = 0x0C then [0x5C, 0x66]
      else if c = 0x0D then [0x5C, 0x72]
      else if c = 0x22 then [0x5C, 0x22]
      else if c = 0x5C then [0x5C, 0x5C]
      else if unat c < 0x20 \<or> is_leading_surrogate c \<or> is_trailing_surrogate c
        then UnicodeEscape c
      else [c])"

fun quote_units :: "jsstring \<Rightarrow> jsstring" where
  "quote_units [] = []"
| "quote_units [c] = quote_unit c"
| "quote_units (c # d # cs) =
     (if is_leading_surrogate c \<and> is_trailing_surrogate d then c # d # quote_units cs
      else quote_unit c @ quote_units (d # cs))"

definition QuoteJSONString :: "jsstring \<Rightarrow> jsstring" where
  "QuoteJSONString s = 0x22 # quote_units s @ [0x22]"

text \<open>
  \<^verbatim>\<open>Number::toString\<close> on an integer below \<open>10\<^sup>2\<^sup>1\<close> in absolute value: its decimal
  digits, after a minus sign when negative.
\<close>

definition digit_char :: "nat \<Rightarrow> 16 word" where
  "digit_char d = of_nat (0x30 + d)"

fun digits :: "nat \<Rightarrow> jsstring" where
  "digits n = (if n < 10 then [digit_char n]
               else digits (n div 10) @ [digit_char (n mod 10)])"

declare digits.simps [simp del]

definition number_to_string :: "int \<Rightarrow> jsstring" where
  "number_to_string t = (if t < 0 then 0x2D # digits (nat (- t)) else digits (nat t))"

text \<open>
  \<^verbatim>\<open>SerializeJSONObject\<close> and \<^verbatim>\<open>SerializeJSONArray\<close> without indentation: members
  \<^verbatim>\<open>"key":value\<close> and elements are separated by a comma, nothing else is inserted.
\<close>

definition member :: "string \<Rightarrow> jsstring \<Rightarrow> jsstring" where
  "member k v = QuoteJSONString (js k) @ 0x3A # v"

definition stringify_image :: "GeneratedImage \<Rightarrow> jsstring" where
  "stringify_image img =
     0x7B # member ''id'' (QuoteJSONString (id' img))
     @ 0x2C # member ''url'' (QuoteJSONString (url img))
     @ 0x2C # member ''prompt'' (QuoteJSONString (prompt img))
     @ 0x2C # member ''timestamp'' (number_to_string (timestamp img))
     @ [0x7D]"

fun join_comma :: "jsstring list \<Rightarrow> jsstring" where
  "join_comma [] = []"
| "join_comma [x] = x"
| "join_comma (x # y # ys) = x @ 0x2C # join_comma (y # ys)"

definition JSON_stringify :: "GeneratedImage list \<Rightarrow> jsstring" where
  "JSON_stringify imgs = 0x5B # join_comma (map stringify_image imgs) @ [0x5D]"

subsection \<open>\<^verbatim>\<open>JSON.parse\<close>\<close>

text \<open>
  The JSON grammar (ECMA-404), which \<^verbatim>\<open>JSON.parse\<close> accepts exactly. Every parser
  takes the text and returns the value read and the text left, or \<open>None\<close> where
  \<^verbatim>\<open>JSON.parse\<close> throws a SyntaxError.
\<close>

definition is_json_ws :: "16 word \<Rightarrow> bool" where
  "is_json_ws c \<longleftrightarrow> c = 0x20 \<or> c = 0x09 \<or> c = 0x0A \<or> c = 0x0D"

definition skip_ws :: "jsstring \<Rightarrow> jsstring" where
  "skip_ws = dropWhile is_json_ws"

definition is_digit :: "16 word \<Rightarrow> bool" where
  "is_digit c \<longleftrightarrow> 0x30 \<le> unat c \<and> unat c \<le> 0x39"

definition digits_val :: "jsstring \<Rightarrow> nat" where
  "digits_val ds = foldl (\<lambda>a d. 10 * a + (unat d - 0x30)) 0 ds"

definition hex_val :: "16 word \<Rightarrow> nat option" where
  "hex_val c =
     (if 0x30 \<le> unat c \<and> unat c \<le> 0x39 then Some (unat c - 0x30)
      else if 0x41 \<le> unat c \<and> unat c \<le> 0x46 then Some (unat c - 0x41 + 10)
      else if 0x61 \<le> unat c \<and> unat c \<le> 0x66 then Some (unat c - 0x61 + 10)
      else None)"

definition hex4 :: "jsstring \<Rightarrow> 16 word option" where
  "hex4 s =
     (case s of
        [a, b, c, d] \<Rightarrow>
          (case (hex_val a, hex_val b, hex_val c, hex_val d) of
             (Some x, Some y, Some z, Some w) \<Rightarrow> Some (of_nat (((x * 16 + y) * 16 + z) * 16 + w))
           | _ \<Rightarrow> None)
      | _ \<Rightarrow> None)"

definition unescape :: "16 word \<Rightarrow> 16 word option" where
  "unescape e =
     (if e = 0x22 then Some 0x22
      else if e = 0x5C then Some 0x5C
      else if e = 0x2F then Some 0x2F
      else if e = 0x62 then Some 0x08
      else if e = 0x66 then Some 0x0C
      else if e = 0x6E then Some 0x0A
      else if e = 0x72 then Some 0x0D
      else if e = 0x74 then Some 0x09
      else None)"

definition cons_char :: "16 word \<Rightarrow> (jsstring \<times> jsstring) option \<Rightarrow> (jsstring \<times> jsstring) option" where
  "cons_char c res = (case res of None \<Rightarrow> None | Some (s, rest) \<Rightarrow> Some (c # s, rest))"

fun parse_chars :: "jsstring \<Rightarrow> (jsstring \<times> jsstring) option" where
  "parse_chars [] = None"
| "parse_chars (c # cs) =
     (if c = 0x22 then Some ([], cs)
      else if c = 0x5C then
        (case cs of
           [] \<Rightarrow> None
         | e # r \<Rightarrow>
             if e = 0x75 then
               (case hex4 (take 4 r) of
                  None \<Rightarrow> None
                | Some w \<Rightarrow> cons_char w (parse_chars (drop 4 r)))
             else
               (case unescape e of
                  None \<Rightarrow> None
                | Some x \<Rightarrow> cons_char x (parse_chars r)))
      else if unat c < 0x20 then None
      else cons_char c (parse_chars cs))"

text \<open>
  A number: \<^verbatim>\<open>-? (0 | [1-9][0-9]*) (. [0-9]+)? ([eE] [+-]? [0-9]+)?\<close>.
\<close>

definition parse_int_part :: "jsstring \<Rightarrow> (nat \<times> jsstring) option" where
  "parse_int_part s =
     (case s of
        [] \<Rightarrow> None
      | c # cs \<Rightarrow>
          if c = 0x30 then Some (0, cs)
          else if is_digit c then Some (digits_val (takeWhile is_digit s), dropWhile is_digit s)
          else None)"

definition parse_frac_part :: "jsstring \<Rightarrow> (rat \<times> jsstring) option" where
  "parse_frac_part s =
     (case s of
        [] \<Rightarrow> Some (0, s)
      | c # cs \<Rightarrow>
          if c = 0x2E then
            (if takeWhile is_digit cs = [] then None
             else Some (of_nat (digits_val (takeWhile is_digit cs))
                          / 10 ^ length (takeWhile is_digit cs),
                        dropWhile is_digit cs))
          else Some (0, s))"

definition parse_exp_digits :: "bool \<Rightarrow> jsstring \<Rightarrow> (int \<times> jsstring) option" where
  "parse_exp_digits neg s =
     (if takeWhile is_digit s = [] then None
      else Some (if neg then - int (digits_val (takeWhile is_digit s))
                 else int (digits_val (takeWhile is_digit s)),
                 dropWhile is_digit s))"

definition parse_exp_part :: "jsstring \<Rightarrow> (int \<times> jsstring) option" where
  "parse_exp_part s =
     (case s of
        [] \<Rightarrow> Some (0, s)
      | c # cs \<Rightarrow>
          if c = 0x65 \<or> c = 0x45 then
            (case cs of
               [] \<Rightarrow> None
             | d # ds \<Rightarrow>
                 if d = 0x2D then parse_exp_digits True ds
                 else if d = 0x2B then parse_exp_digits False ds
                 else parse_exp_digits False cs)
          else Some (0, s))"

definition scale :: "rat \<Rightarrow> int \<Rightarrow> rat" where
  "scale x e = (if 0 \<le> e then x * 10 ^ nat e else x / 10 ^ nat (- e))"

definition parse_unsigned :: "jsstring \<Rightarrow> (rat \<times> jsstring) option" where
  "parse_unsigned s =
     (case parse_int_part s of
        None \<Rightarrow> None
      | Some (n, s1) \<Rightarrow>
          (case parse_frac_part s1 of
             None \<Rightarrow> None
           | Some (f, s2) \<Rightarrow>
               (case parse_exp_part s2 of
                  None \<Rightarrow> None
                | Some (e, s3) \<Rightarrow> Some (scale (of_nat n + f) e, s3))))"

definition parse_number :: "jsstring \<Rightarrow> (rat \<times> jsstring) option" where
  "parse_number s =
     (case s of
        [] \<Rightarrow> None
      | c # cs \<Rightarrow>
          if c = 0x2D then
            (case parse_unsigned cs of None \<Rightarrow> None | Some (x, r) \<Rightarrow> Some (- x, r))
          else parse_unsigned s)"

text \<open>
  Values, the elements of an array after \<^verbatim>\<open>[\<close>, the members of an object after
  \<^verbatim>\<open>{\<close>. The tests \<open>length ds < length s\<close> before the recursive calls make the
  termination evident; they never fail (\<open>parse_elements_unguarded\<close> and
  \<open>parse_members_unguarded\<close> below).
\<close>

function parse_value :: "jsstring \<Rightarrow> (json \<times> jsstring) option"
  and parse_elements :: "jsstring \<Rightarrow> (json list \<times> jsstring) option"
  and parse_members :: "jsstring \<Rightarrow> ((jsstring \<times> json) list \<times> jsstring) option"
where
  "parse_value [] = None"
| "parse_value (c # cs) =
     (if is_json_ws c then parse_value cs
      else if c = 0x22 then
        (case parse_chars cs of None \<Rightarrow> None | Some (str, r) \<Rightarrow> Some (JString str, r))
      else if c = 0x5B then
        (case skip_ws cs of
           [] \<Rightarrow> None
         | d # ds \<Rightarrow>
             if d = 0x5D then Some (JArray [], ds)
             else (case parse_elements (d # ds) of
                     None \<Rightarrow> None
                   | Some (vs, r) \<Rightarrow> Some (JArray vs, r)))
      else if c = 0x7B then
        (case skip_ws cs of
           [] \<Rightarrow> None
         | d # ds \<Rightarrow>
             if d = 0x7D then Some (JObject [], ds)
             else (case parse_members (d # ds) of
                     None \<Rightarrow> None
                   | Some (ms, r) \<Rightarrow>
                       Some (JObject (foldl (\<lambda>ps (k, v). set_property k v ps) [] ms), r)))
      else if take 4 (c # cs) = js ''true'' then Some (JBool True, drop 3 cs)
      else if take 5 (c # cs) = js ''false'' then Some (JBool False, drop 4 cs)
      else if take 4 (c # cs) = js ''null'' then Some (JNull, drop 3 cs)
      else (case parse_number (c # cs) of
              None \<Rightarrow> None
            | Some (x, r) \<Rightarrow> Some (JNumber x, r)))"
| "parse_elements s =
     (case parse_value s of
        None \<Rightarrow> None
      | Some (v, r) \<Rightarrow>
          (case skip_ws r of
             [] \<Rightarrow> None
           | d # ds \<Rightarrow>
               if d = 0x5D then Some ([v], ds)
               else if d = 0x2C \<and> length ds < length s then
                 (case parse_elements ds of
                    None \<Rightarrow> None
                  | Some (vs, r') \<Rightarrow> Some (v # vs, r'))
               else None))"
| "parse_members s =
     (case skip_ws s of
        [] \<Rightarrow> None
      | q # cs \<Rightarrow>
          if q \<noteq> 0x22 then None
          else
            (case parse_chars cs of
               None \<Rightarrow> None
             | Some (k, r) \<Rightarrow>
                 (case skip_ws r of
                    [] \<Rightarrow> None
                  | col # r1 \<Rightarrow>
                      if col \<noteq> 0x3A \<or> \<not> length r1 < length s then None
                      else
                        (case parse_value r1 of
                           None \<Rightarrow> None
                         | Some (v, r2) \<Rightarrow>
                             (case skip_ws r2 of
                                [] \<Rightarrow> None
                              | d # ds \<Rightarrow>
                                  if d = 0x7D then Some ([(k, v)], ds)
                                  else if d = 0x2C \<and> length ds < length s then
                                    (case parse_members ds of
                                       None \<Rightarrow> None
                                     | Some (ms, r') \<Rightarrow> Some ((k, v) # ms, r'))
                                  else None)))))"
  by pat_completeness auto

termination
proof -
  have shorter: "length ds < length s" if "skip_ws s = d # ds" for s d ds
    using that length_dropWhile_le [of is_json_ws s] by (simp add: skip_ws_def)
  show ?thesis
    by (relation "measure (\<lambda>x. case x of
          Inl s \<Rightarrow> 2 * length s
        | Inr (Inl s) \<Rightarrow> 2 * length s + 1
        | Inr (Inr s) \<Rightarrow> 2 * length s + 1)")
       (auto dest: shorter)
qed

declare parse_value.simps [simp del] parse_elements.simps [simp del]
  parse_members.simps [simp del]

definition JSON_parse :: "jsstring \<Rightarrow> json option" where
  "JSON_parse s =
     (case parse_value s of
        None \<Rightarrow> None
      | Some (v, r) \<Rightarrow> if skip_ws r = [] then Some v else None)"

subsection \<open>The two effects on \<^verbatim>\<open>localStorage\<close>\<close>

text \<open>
  \<^verbatim>\<open>localStorage\<close> maps keys to strings: \<^verbatim>\<open>getItem\<close> is the lookup (\<open>None\<close> for
  \<^verbatim>\<open>null\<close>), \<^verbatim>\<open>setItem\<close> the update.
\<close>

type_synonym storage = "jsstring \<rightharpoonup> jsstring"

definition images_key :: jsstring where
  "images_key = js ''text2image-images''"

text \<open>
  The effect that runs once after the first render (``Load state from local storage'').
  The result is the value of the hook \<^verbatim>\<open>images\<close> afterwards: what \<^verbatim>\<open>JSON.parse\<close>
  returned, given to \<^verbatim>\<open>setImages\<close> as it is, or the initial \<^verbatim>\<open>[]\<close> when the key is
  absent, the text is empty (\<^verbatim>\<open>if (saved)\<close>) or \<^verbatim>\<open>JSON.parse\<close> throws.
\<close>

definition load_images :: "storage \<Rightarrow> json" where
  "load_images st =
     (case st images_key of
        None \<Rightarrow> JArray []
      | Some saved \<Rightarrow>
          if saved = [] then JArray []
          else (case JSON_parse saved of
                  None \<Rightarrow> JArray []
                | Some v \<Rightarrow> v))"

text \<open>The effect with dependency \<^verbatim>\<open>[images]\<close> (``Save state to local storage'').\<close>

definition save_images :: "GeneratedImage list \<Rightarrow> storage \<Rightarrow> storage" where
  "save_images imgs st = st(images_key \<mapsto> JSON_stringify imgs)"

text \<open>
  The storage after an event that took the hooks from \<open>old\<close> to \<open>new\<close>: the save effect
  runs when \<^verbatim>\<open>images\<close> has changed. (React compares references; a setter that stores
  an equal fresh array makes the effect write the same text again.)
\<close>

definition rerender :: "App \<Rightarrow> App \<Rightarrow> storage \<Rightarrow> storage" where
  "rerender old new st = (if images new = images old then st else save_images (images new) st)"

text \<open>
  The records for which the typed model is exact: the timestamp is an integer that a
  JavaScript number holds exactly, as every \<^verbatim>\<open>Date.now()\<close> is.
\<close>

definition valid_image :: "GeneratedImage \<Rightarrow> bool" where
  "valid_image img \<longleftrightarrow>
     - 9007199254740991 \<le> timestamp img \<and> timestamp img \<le> 9007199254740991"

subsection \<open>Example data\<close>

text \<open>Concrete records and states on which the properties below are evaluated.\<close>

definition fox :: GeneratedImage where
  "fox = \<lparr>id' = js ''k3x9q2m7a'', url = js ''img://1'', prompt = js ''a red fox'', timestamp = 1700000000000\<rparr>"

definition fox_state :: App where
  "fox_state = initial\<lparr>images := [fox], prompt_st := js ''a blue owl''\<rparr>"

definition blue_fox :: GeneratedImage where
  "blue_fox = fox\<lparr>url := js ''img://2'',
     prompt := js ''a red fox'' @ js '' (Edit: '' @ js ''make it blue'' @ js '')'',
     timestamp := 1700000060000\<rparr>"

definition owl :: GeneratedImage where
  "owl = \<lparr>id' = js ''p07aazb4e'', url = js ''img://0'', prompt = js ''an owl'', timestamp = 1699999990000\<rparr>"

definition gallery :: App where
  "gallery = initial\<lparr>images := [owl, fox]\<rparr>"

definition fox_card :: ImageCard where
  "fox_card = \<lparr>image = fox, editPrompt = [], showEdit = True\<rparr>"

definition fox_twin :: GeneratedImage where
  "fox_twin = \<lparr>id' = js ''k3x9q2m7a'', url = js ''img://7'', prompt = js ''a grey wolf'', timestamp = 1700000030000\<rparr>"

definition twins :: App where
  "twins = initial\<lparr>images := [owl, fox, fox_twin]\<rparr>"






definition no_store :: storage where
  "no_store = Map.empty"

definition null_store :: storage where
  "null_store = no_store(images_key \<mapsto> js ''null'')"

definition cut_store :: storage where
  "cut_store = no_store(images_key \<mapsto> js ''[{'')"

section \<open>Properties of the handlers\<close>

subsection \<open>Whitespace\<close>

lemma trim_all_whitespace:
  "(\<forall>c \<in> set p. is_js_whitespace c) \<Longrightarrow> trim p = []"
proof -
  assume "\<forall>c \<in> set p. is_js_whitespace c"
  then have d: "dropWhile is_js_whitespace p = []"
    by (simp add: dropWhile_eq_Nil_conv)
  show "trim p = []"
    by (simp only: trim_def d rev.simps dropWhile.simps)
qed

lemma trim_empty_only_whitespace:
  assumes "trim p = []"
  shows "\<forall>c \<in> set p. is_js_whitespace c"
proof -
  let ?d = "dropWhile is_js_whitespace p"
  from assms have all: "\<forall>x \<in> set ?d. is_js_whitespace x"
    by (simp add: trim_def dropWhile_eq_Nil_conv)
  have "?d = []"
  proof (rule ccontr)
    assume ne: "?d \<noteq> []"
    then have "\<not> is_js_whitespace (hd ?d)" by (rule hd_dropWhile)
    moreover from ne have "hd ?d \<in> set ?d" by simp
    ultimately show False using all by blast
  qed
  then show ?thesis by (simp add: dropWhile_eq_Nil_conv)
qed

text \<open>
  C4. A call of \<^verbatim>\<open>handleGenerate\<close> with a prompt that is empty or consists of whitespace
  only, and a call made while a generation is in progress, changes nothing: no request is
  sent and the state (the images sequence with it) is the one before the call.
\<close>

theorem handleGenerate_rejected:
  assumes "(\<forall>c \<in> set (prompt_st s). is_js_whitespace c) \<or> isGenerating s"
  shows "handleGenerate out rid now s = (s, [])"
  using assms by (auto simp: handleGenerate_def trim_all_whitespace)

theorem handleGenerate_rejected_witness:
  "handleGenerate (Resolved (js ''img://1'')) (js ''p07aazb4e'') 1700000060000
       (initial\<lparr>prompt_st := [0x20, 0x09, 0x3000]\<rparr>)
     = (initial\<lparr>prompt_st := [0x20, 0x09, 0x3000]\<rparr>, [])
   \<and> handleGenerate (Resolved (js ''img://1'')) (js ''p07aazb4e'') 1700000060000
       (initial\<lparr>prompt_st := js ''a red fox'', isGenerating := True\<rparr>)
     = (initial\<lparr>prompt_st := js ''a red fox'', isGenerating := True\<rparr>, [])
   \<and> handleGenerate (Resolved (js ''img://1'')) (js ''p07aazb4e'') 1700000060000 initial = (initial, [])"
proof -
  have a: "(\<forall>c \<in> set (prompt_st (initial\<lparr>prompt_st := [0x20, 0x09, 0x3000]\<rparr>)). is_js_whitespace c)
      \<or> isGenerating (initial\<lparr>prompt_st := [0x20, 0x09, 0x3000]\<rparr>)"
    by (simp add: is_js_whitespace_def)
  have b: "(\<forall>c \<in> set (prompt_st (initial\<lparr>prompt_st := js ''a red fox'', isGenerating := True\<rparr>)).
        is_js_whitespace c)
      \<or> isGenerating (initial\<lparr>prompt_st := js ''a red fox'', isGenerating := True\<rparr>)"
    by simp
  have c: "(\<forall>c \<in> set (prompt_st initial). is_js_whitespace c) \<or> isGenerating initial"
    by (simp add: initial_def)
  show ?thesis
    using handleGenerate_rejected [OF a] handleGenerate_rejected [OF b]
      handleGenerate_rejected [OF c]
    by simp
qed

subsection \<open>Generation\<close>

lemma trim_owl: "trim (js ''a blue owl'') \<noteq> []"
  by (simp add: trim_def js_def is_js_whitespace_def)

lemma fox_owl_ids: "id' fox \<noteq> id' owl" "id' owl \<noteq> id' fox" "js ''k3x9q2m7a'' \<noteq> js ''p07aazb4e''"
  by (simp_all add: fox_def owl_def js_def)

lemma handleGenerate_accepted:
  "trim (prompt_st s) \<noteq> [] \<Longrightarrow> \<not> isGenerating s \<Longrightarrow>
   handleGenerate out rid now s =
     (generate_settle (prompt_st s) out rid now (s\<lparr>isGenerating := True, error := None\<rparr>),
      [GenerateImage (prompt_st s) (aspectRatio s)])"
  by (simp add: handleGenerate_def)

lemma generate_settle_images:
  "images (generate_settle p (Resolved u) rid now s) =
     \<lparr>id' = rid, url = u, prompt = p, timestamp = now\<rparr> # images s"
  by (simp add: generate_settle_def)

text \<open>
  C1, as stated, fails: the id is whatever \<^verbatim>\<open>Math.random().toString(36).substr(2, 9)\<close>
  yields, and nothing compares it with the ids already present. When the draw repeats the
  id of a record of the sequence, the new record at position 0 carries that id.
\<close>

theorem handleGenerate_id_collision:
  "id' (images (fst (handleGenerate (Resolved (js ''img://2'')) (js ''k3x9q2m7a'') 1700000060000 fox_state)) ! 0)
     \<in> set (map id' (images fox_state))"
  by (simp add: handleGenerate_def generate_settle_def fox_state_def fox_def initial_def trim_owl)

text \<open>
  C1, amended. A successful generation puts the new record at position 0, in front of the
  previous records, which keep their order. Its id is the drawn string: when that string
  is not among the ids of the sequence, the new id differs from every one of them, and a
  sequence with pairwise distinct ids stays so.
\<close>

theorem handleGenerate_success_prepends:
  assumes "trim (prompt_st s) \<noteq> []" and "\<not> isGenerating s"
  shows "images (fst (handleGenerate (Resolved u) rid now s)) =
           \<lparr>id' = rid, url = u, prompt = prompt_st s, timestamp = now\<rparr> # images s
       \<and> (rid \<notin> set (map id' (images s)) \<longrightarrow>
            (\<forall>img \<in> set (images s).
               id' (images (fst (handleGenerate (Resolved u) rid now s)) ! 0) \<noteq> id' img))
       \<and> (rid \<notin> set (map id' (images s)) \<and> distinct (map id' (images s)) \<longrightarrow>
            distinct (map id' (images (fst (handleGenerate (Resolved u) rid now s)))))"
  using assms by (auto simp: handleGenerate_accepted generate_settle_images)

theorem handleGenerate_success_prepends_witness:
  "images (fst (handleGenerate (Resolved (js ''img://2'')) (js ''p07aazb4e'') 1700000060000 fox_state)) =
     [\<lparr>id' = js ''p07aazb4e'', url = js ''img://2'', prompt = js ''a blue owl'', timestamp = 1700000060000\<rparr>, fox]
   \<and> distinct (map id' (images (fst (handleGenerate (Resolved (js ''img://2'')) (js ''p07aazb4e'') 1700000060000
        fox_state))))"
proof -
  have a: "trim (prompt_st fox_state) \<noteq> []"
    by (simp add: fox_state_def trim_owl)
  have b: "\<not> isGenerating fox_state"
    by (simp add: fox_state_def initial_def)
  have c: "js ''p07aazb4e'' \<notin> set (map id' (images fox_state)) \<and> distinct (map id' (images fox_state))"
    using fox_owl_ids by (simp add: fox_state_def fox_def)
  have p: "prompt_st fox_state = js ''a blue owl''" "images fox_state = [fox]"
    by (simp_all add: fox_state_def)
  show ?thesis
    using handleGenerate_success_prepends [OF a b, of "js ''img://2''" "js ''p07aazb4e''" 1700000060000] c
    by (simp add: p)
qed

subsection \<open>Editing\<close>


lemma find_first_index:
  "k < length xs \<Longrightarrow> P (xs ! k) \<Longrightarrow> (\<forall>j<k. \<not> P (xs ! j)) \<Longrightarrow> find P xs = Some (xs ! k)"
  by (auto simp: find_Some_iff)

lemma handleEdit_found:
  "find (\<lambda>img. id' img = i) (images s) = Some t \<Longrightarrow>
   handleEdit out now i e s =
     (edit_settle i e t out now (s\<lparr>isEditingId := Some i, error := None\<rparr>),
      [EditImage e (url t)])"
  by (simp add: handleEdit_def)

lemma edit_settle_images:
  "images (edit_settle i e t (Resolved newUrl) now s) =
     map (\<lambda>img. if id' img = i
            then t\<lparr>url := newUrl, prompt := prompt t @ js '' (Edit: '' @ e @ js '')'',
                   timestamp := now\<rparr>
            else img) (images s)"
  by (simp add: edit_settle_def)

lemma handleEdit_images:
  "find (\<lambda>img. id' img = i) (images s) = Some t \<Longrightarrow>
   images (fst (handleEdit (Resolved newUrl) now i e s)) =
     map (\<lambda>img. if id' img = i
            then t\<lparr>url := newUrl, prompt := prompt t @ js '' (Edit: '' @ e @ js '')'',
                   timestamp := now\<rparr>
            else img) (images s)"
  by (simp add: handleEdit_found edit_settle_images)

lemma handleEdit_not_found:
  "find (\<lambda>img. id' img = i) (images s) = None \<Longrightarrow> handleEdit out now i e s = (s, [])"
  by (simp add: handleEdit_def)


lemma handleEdit_start_settle:
  "handleEdit out now i e s =
     (case handleEdit_start i e s of
        None \<Rightarrow> (s, [])
      | Some (s', t, rq) \<Rightarrow> (edit_settle i e t out now s', [rq]))"
  by (simp add: handleEdit_def handleEdit_start_def split: option.splits)

lemma handleEditSubmit_start_settle:
  "snd (handleEditSubmit out now cd s) =
     (case handleEditSubmit_start cd s of
        None \<Rightarrow> (s, [])
      | Some (s', t, rq) \<Rightarrow> (edit_settle (id' (image cd)) (editPrompt cd) t out now s', [rq]))"
  by (simp add: handleEditSubmit_def handleEditSubmit_start_def handleEdit_start_settle
      split: option.splits prod.splits)







text \<open>
  C3. A successful edit targeting id \<open>i\<close> keeps the length of the sequence, and every
  record whose id is not \<open>i\<close> is the same record (all four fields) at the same position.
\<close>

theorem handleEdit_frame:
  "length (images (fst (handleEdit (Resolved newUrl) now i e s))) = length (images s)
   \<and> (\<forall>j < length (images s). id' (images s ! j) \<noteq> i \<longrightarrow>
        images (fst (handleEdit (Resolved newUrl) now i e s)) ! j = images s ! j)"
proof (cases "find (\<lambda>img. id' img = i) (images s)")
  case None
  then show ?thesis by (simp add: handleEdit_not_found)
next
  case (Some t)
  then show ?thesis by (simp add: handleEdit_images)
qed

theorem handleEdit_frame_witness:
  "length (images (fst (handleEdit (Resolved (js ''img://2'')) 1700000060000 (js ''k3x9q2m7a'')
      (js ''make it blue'') gallery))) = 2
   \<and> images (fst (handleEdit (Resolved (js ''img://2'')) 1700000060000 (js ''k3x9q2m7a'')
      (js ''make it blue'') gallery)) ! 0 = owl"
proof -
  have g: "images gallery = [owl, fox]"
    by (simp add: gallery_def)
  have n: "id' owl \<noteq> js ''k3x9q2m7a''"
    using fox_owl_ids by (simp add: fox_def)
  show ?thesis
    using handleEdit_frame [of "js ''img://2''" 1700000060000 "js ''k3x9q2m7a''" "js ''make it blue''" gallery,
        THEN conjunct1]
      handleEdit_frame [of "js ''img://2''" 1700000060000 "js ''k3x9q2m7a''" "js ''make it blue''" gallery,
        THEN conjunct2, rule_format, of 0]
      n
    by (simp add: g)
qed

text \<open>
  \<^verbatim>\<open>handleEdit\<close> itself does not look at the instruction: called with an empty one for
  a record that exists, it sends the request. The test for emptiness is in the form.
\<close>

lemma handleEdit_empty_instruction:
  "find (\<lambda>img. id' img = i) (images s) = Some t \<Longrightarrow>
   snd (handleEdit out now i [] s) = [EditImage [] (url t)]"
  by (simp add: handleEdit_found)

text \<open>
  C5. \<^verbatim>\<open>handleEdit\<close> returns at once, with the state as it was and no request, when no
  record has the target id. The form that calls it, \<^verbatim>\<open>handleEditSubmit\<close> of
  \<^verbatim>\<open>ImageCard\<close>, does not call it for an instruction that is empty (or whitespace
  only). Either way the state of \<^verbatim>\<open>App\<close> is unchanged and nothing is sent.
\<close>

theorem submitEdit_rejected:
  "(find (\<lambda>img. id' img = i) (images s) = None \<longrightarrow> handleEdit out now i e s = (s, []))
   \<and> (find (\<lambda>img. id' img = id' (image cd)) (images s) = None
        \<or> (\<forall>c \<in> set (editPrompt cd). is_js_whitespace c)
      \<longrightarrow> snd (handleEditSubmit out now cd s) = (s, []))"
  by (auto simp: handleEditSubmit_def handleEdit_not_found trim_all_whitespace)

theorem submitEdit_rejected_witness:
  "handleEdit (Resolved (js ''img://2'')) 1700000060000 (js ''zzzzzzzzz'') (js ''make it blue'') gallery
     = (gallery, [])
   \<and> snd (handleEditSubmit (Resolved (js ''img://2'')) 1700000060000 fox_card gallery) = (gallery, [])
   \<and> snd (handleEditSubmit (Resolved (js ''img://2'')) 1700000060000
        (fox_card\<lparr>editPrompt := js ''make it blue''\<rparr>) initial) = (initial, [])"
proof -
  have a: "find (\<lambda>img. id' img = js ''zzzzzzzzz'') (images gallery) = None"
    by (simp add: gallery_def initial_def fox_def owl_def js_def)
  have b: "find (\<lambda>img. id' img = id' (image fox_card)) (images gallery) = None
      \<or> (\<forall>c \<in> set (editPrompt fox_card). is_js_whitespace c)"
    by (simp add: fox_card_def)
  have c: "find (\<lambda>img. id' img = id' (image (fox_card\<lparr>editPrompt := js ''make it blue''\<rparr>)))
        (images initial) = None
      \<or> (\<forall>c \<in> set (editPrompt (fox_card\<lparr>editPrompt := js ''make it blue''\<rparr>)). is_js_whitespace c)"
    by (simp add: initial_def)
  show ?thesis
    using submitEdit_rejected [THEN conjunct1, rule_format, OF a]
      submitEdit_rejected [THEN conjunct2, rule_format, OF b]
      submitEdit_rejected [THEN conjunct2, rule_format, OF c]
    by simp
qed

text \<open>
  C8. Whatever the outcome of the service call, the code after the \<^verbatim>\<open>await\<close> ends with
  \<^verbatim>\<open>isGenerating\<close> false (generation) and \<^verbatim>\<open>isEditingId\<close> null (edit); so every
  handler call that sent a request ends with its flag cleared.
\<close>

theorem in_flight_flags_cleared:
  "isGenerating (generate_settle p out rid now s) = False
   \<and> isEditingId (edit_settle i e t out now s) = None
   \<and> (snd (handleGenerate out rid now s) \<noteq> [] \<longrightarrow>
        isGenerating (fst (handleGenerate out rid now s)) = False)
   \<and> (snd (handleEdit out now i e s) \<noteq> [] \<longrightarrow>
        isEditingId (fst (handleEdit out now i e s)) = None)"
  by (auto simp: generate_settle_def edit_settle_def handleGenerate_def handleEdit_def
      split: outcome.splits option.splits)

theorem in_flight_flags_cleared_witness:
  "snd (handleGenerate (Rejected None) (js ''p07aazb4e'') 1700000060000 fox_state) \<noteq> []
   \<and> isGenerating (fst (handleGenerate (Rejected None) (js ''p07aazb4e'') 1700000060000 fox_state)) = False
   \<and> snd (handleEdit (Rejected None) 1700000060000 (js ''k3x9q2m7a'') (js ''make it blue'') fox_state) \<noteq> []
   \<and> isEditingId (fst (handleEdit (Rejected None) 1700000060000 (js ''k3x9q2m7a'') (js ''make it blue'')
        fox_state)) = None"
proof -
  have a: "snd (handleGenerate (Rejected None) (js ''p07aazb4e'') 1700000060000 fox_state) \<noteq> []"
    by (simp add: handleGenerate_def fox_state_def trim_owl initial_def)
  have b: "snd (handleEdit (Rejected None) 1700000060000 (js ''k3x9q2m7a'') (js ''make it blue'') fox_state) \<noteq> []"
    by (simp add: handleEdit_def fox_state_def fox_def)
  show ?thesis
    using a b
      in_flight_flags_cleared [of "prompt_st fox_state" "Rejected None" "js ''p07aazb4e''" 1700000060000
        fox_state "js ''k3x9q2m7a''" "js ''make it blue''" fox,
        THEN conjunct2, THEN conjunct2, THEN conjunct1, rule_format, OF a]
      in_flight_flags_cleared [of "prompt_st fox_state" "Rejected None" "js ''p07aazb4e''" 1700000060000
        fox_state "js ''k3x9q2m7a''" "js ''make it blue''" fox,
        THEN conjunct2, THEN conjunct2, THEN conjunct2, rule_format, OF b]
    by simp
qed

text \<open>
  C9. When several records share the id \<open>i\<close>, a successful edit targeting \<open>i\<close> puts one
  and the same record at each of their positions: the first record with id \<open>i\<close>, with
  the returned url, its own prompt followed by the annotation, and the clock's reading.
\<close>

theorem handleEdit_duplicate_ids:
  assumes "k < length (images s)" and "id' (images s ! k) = i"
    and "\<forall>j<k. id' (images s ! j) \<noteq> i"
  shows "\<forall>j < length (images s). id' (images s ! j) = i \<longrightarrow>
           images (fst (handleEdit (Resolved newUrl) now i e s)) ! j =
             (images s ! k)\<lparr>url := newUrl,
                prompt := prompt (images s ! k) @ js '' (Edit: '' @ e @ js '')'',
                timestamp := now\<rparr>"
proof -
  from assms have "find (\<lambda>img. id' img = i) (images s) = Some (images s ! k)"
    using find_first_index [of k "images s" "\<lambda>img. id' img = i"] by simp
  then show ?thesis by (simp add: handleEdit_images)
qed

theorem handleEdit_duplicate_ids_witness:
  "images (fst (handleEdit (Resolved (js ''img://2'')) 1700000060000 (js ''k3x9q2m7a'') (js ''make it blue'')
       twins)) ! 1 = blue_fox
   \<and> images (fst (handleEdit (Resolved (js ''img://2'')) 1700000060000 (js ''k3x9q2m7a'') (js ''make it blue'')
       twins)) ! 2 = blue_fox"
proof -
  have g: "images twins = [owl, fox, fox_twin]"
    by (simp add: twins_def)
  have a: "1 < length (images twins)" by (simp add: g)
  have b: "id' (images twins ! 1) = js ''k3x9q2m7a''" by (simp add: g fox_def)
  have c: "\<forall>j<1. id' (images twins ! j) \<noteq> js ''k3x9q2m7a''"
    using fox_owl_ids by (simp add: g fox_def)
  have d: "id' fox = js ''k3x9q2m7a''" "id' fox_twin = js ''k3x9q2m7a''"
    by (simp_all add: fox_def fox_twin_def)
  show ?thesis
    using handleEdit_duplicate_ids [OF a b c, rule_format, of 1 "js ''img://2''" 1700000060000 "js ''make it blue''"]
      handleEdit_duplicate_ids [OF a b c, rule_format, of 2 "js ''img://2''" 1700000060000 "js ''make it blue''"]
    by (simp add: g d blue_fox_def fox_def)
qed

section \<open>Properties of the persistence\<close>

subsection \<open>The parsers consume their input\<close>

text \<open>
  Every parser that returns a value leaves less text than it was given. Hence the
  length tests in \<open>parse_elements\<close> and \<open>parse_members\<close> always succeed, and both
  functions satisfy their equations without the tests.
\<close>

lemma length_skip_ws: "length (skip_ws s) \<le> length s"
  by (simp add: skip_ws_def length_dropWhile_le)

lemma skip_ws_Cons_length: "skip_ws s = d # ds \<Longrightarrow> length ds < length s"
  using length_skip_ws [of s] by simp

lemma cons_char_Some:
  "cons_char c res = Some (x, r) \<Longrightarrow> \<exists>y. res = Some (y, r)"
  by (auto simp: cons_char_def split: option.splits)

lemma parse_chars_shorter:
  "parse_chars s = Some (x, r) \<Longrightarrow> length r < length s"
proof (induction s arbitrary: x r rule: parse_chars.induct)
  case 1
  then show ?case by simp
next
  case (2 c cs)
  show ?case
  proof (cases "c = 0x22")
    case True
    with 2(4) show ?thesis by simp
  next
    case q: False
    show ?thesis
    proof (cases "c = 0x5C")
      case False
      with q 2(4) have "\<exists>y. parse_chars cs = Some (y, r)"
        by (auto split: if_splits dest: cons_char_Some)
      then obtain y where "parse_chars cs = Some (y, r)" ..
      with 2(3) q False 2(4) have "length r < length cs"
        by (auto split: if_splits)
      then show ?thesis by simp
    next
      case True
      with 2(4) obtain e rr where cs: "cs = e # rr"
        by (cases cs) auto
      show ?thesis
      proof (cases "e = 0x75")
        case u: True
        with True cs 2(4) obtain w where w: "hex4 (take 4 rr) = Some w"
          and "\<exists>y. parse_chars (drop 4 rr) = Some (y, r)"
          by (auto split: option.splits dest: cons_char_Some)
        then obtain y where "parse_chars (drop 4 rr) = Some (y, r)" by blast
        with 2(1) [OF q True cs u w] have "length r < length (drop 4 rr)" by simp
        with cs show ?thesis by simp
      next
        case nu: False
        with True cs 2(4) obtain z where z: "unescape e = Some z"
          and "\<exists>y. parse_chars rr = Some (y, r)"
          by (auto split: option.splits dest: cons_char_Some)
        then obtain y where "parse_chars rr = Some (y, r)" by blast
        with 2(2) [OF q True cs nu z] have "length r < length rr" by simp
        with cs show ?thesis by simp
      qed
    qed
  qed
qed

lemma parse_int_part_shorter:
  "parse_int_part s = Some (n, r) \<Longrightarrow> length r < length s"
proof (cases s)
  case Nil
  moreover assume "parse_int_part s = Some (n, r)"
  ultimately show ?thesis by (simp add: parse_int_part_def)
next
  case (Cons c cs)
  assume p: "parse_int_part s = Some (n, r)"
  have "length (dropWhile is_digit cs) \<le> length cs"
    by (rule length_dropWhile_le)
  with p Cons show ?thesis
    by (auto simp: parse_int_part_def split: if_splits)
qed

lemma parse_frac_part_shorter:
  "parse_frac_part s = Some (f, r) \<Longrightarrow> length r \<le> length s"
proof (cases s)
  case Nil
  moreover assume "parse_frac_part s = Some (f, r)"
  ultimately show ?thesis by (simp add: parse_frac_part_def)
next
  case (Cons c cs)
  assume p: "parse_frac_part s = Some (f, r)"
  have "length (dropWhile is_digit cs) \<le> length cs"
    by (rule length_dropWhile_le)
  with p Cons show ?thesis
    by (auto simp: parse_frac_part_def split: if_splits)
qed

lemma parse_exp_digits_shorter:
  "parse_exp_digits neg s = Some (e, r) \<Longrightarrow> length r \<le> length s"
  using length_dropWhile_le [of is_digit s]
  by (auto simp: parse_exp_digits_def split: if_splits)

lemma parse_exp_part_shorter:
  "parse_exp_part s = Some (e, r) \<Longrightarrow> length r \<le> length s"
proof (cases s)
  case Nil
  moreover assume "parse_exp_part s = Some (e, r)"
  ultimately show ?thesis by (simp add: parse_exp_part_def)
next
  case (Cons c cs)
  assume p: "parse_exp_part s = Some (e, r)"
  show ?thesis
  proof (cases "c = 0x65 \<or> c = 0x45")
    case False
    with p Cons show ?thesis by (auto simp: parse_exp_part_def)
  next
    case True
    with p Cons obtain d ds where cs: "cs = d # ds"
      by (cases cs) (auto simp: parse_exp_part_def)
    from p Cons True cs have
      "parse_exp_digits True ds = Some (e, r) \<or> parse_exp_digits False ds = Some (e, r)
        \<or> parse_exp_digits False cs = Some (e, r)"
      by (auto simp: parse_exp_part_def split: if_splits)
    then have "length r \<le> length cs"
      using cs by (auto dest!: parse_exp_digits_shorter)
    with Cons show ?thesis by simp
  qed
qed

lemma parse_unsigned_shorter:
  "parse_unsigned s = Some (x, r) \<Longrightarrow> length r < length s"
  by (auto simp: parse_unsigned_def split: option.splits
      dest!: parse_int_part_shorter parse_frac_part_shorter parse_exp_part_shorter)

lemma parse_number_shorter:
  "parse_number s = Some (x, r) \<Longrightarrow> length r < length s"
  by (cases s)
     (auto simp: parse_number_def split: if_splits option.splits dest!: parse_unsigned_shorter)

lemma parse_shorter:
  "\<forall>v r. parse_value s = Some (v, r) \<longrightarrow> length r < length s"
  "\<forall>vs r. parse_elements s1 = Some (vs, r) \<longrightarrow> length r < length s1"
  "\<forall>ms r. parse_members s2 = Some (ms, r) \<longrightarrow> length r < length s2"
proof (induction s and s1 and s2 rule: parse_value_parse_elements_parse_members.induct)
  case 1
  show ?case by (simp add: parse_value.simps)
next
  case (2 c cs)
  show ?case
  proof (intro allI impI)
    fix v r
    assume p: "parse_value (c # cs) = Some (v, r)"
    show "length r < length (c # cs)"
    proof (cases "is_json_ws c")
      case True
      with p have "parse_value cs = Some (v, r)" by (simp add: parse_value.simps)
      with 2(1) [OF True] show ?thesis by auto
    next
      case ws: False
      show ?thesis
      proof (cases "c = 0x22")
        case True
        with ws p obtain str where "parse_chars cs = Some (str, r)"
          by (auto simp: parse_value.simps split: option.splits)
        then show ?thesis by (auto dest: parse_chars_shorter)
      next
        case q: False
        show ?thesis
        proof (cases "c = 0x5B")
          case True
          with ws q p obtain d ds where sk: "skip_ws cs = d # ds"
            by (cases "skip_ws cs") (auto simp: parse_value.simps)
          then have l: "length ds < length cs" by (rule skip_ws_Cons_length)
          show ?thesis
          proof (cases "d = 0x5D")
            case True
            with ws q \<open>c = 0x5B\<close> sk p l show ?thesis
              by (auto simp: parse_value.simps)
          next
            case False
            with ws q \<open>c = 0x5B\<close> sk p obtain vs where "parse_elements (d # ds) = Some (vs, r)"
              by (auto simp: parse_value.simps split: option.splits)
            with 2(2) [OF ws q \<open>c = 0x5B\<close> sk False] l show ?thesis by auto
          qed
        next
          case a: False
          show ?thesis
          proof (cases "c = 0x7B")
            case True
            with ws q a p obtain d ds where sk: "skip_ws cs = d # ds"
              by (cases "skip_ws cs") (auto simp: parse_value.simps)
            then have l: "length ds < length cs" by (rule skip_ws_Cons_length)
            show ?thesis
            proof (cases "d = 0x7D")
              case True
              with ws q a \<open>c = 0x7B\<close> sk p l show ?thesis
                by (auto simp: parse_value.simps)
            next
              case False
              with ws q a \<open>c = 0x7B\<close> sk p obtain ms where "parse_members (d # ds) = Some (ms, r)"
                by (auto simp: parse_value.simps split: option.splits)
              with 2(3) [OF ws q a \<open>c = 0x7B\<close> sk False] l show ?thesis by auto
            qed
          next
            case b: False
            from ws q a b p have
              "r = drop 3 cs \<or> r = drop 4 cs \<or> (\<exists>x. parse_number (c # cs) = Some (x, r))"
              by (auto simp: parse_value.simps split: if_splits option.splits)
            then show ?thesis
              by (auto dest: parse_number_shorter)
          qed
        qed
      qed
    qed
  qed
next
  case (3 s)
  show ?case
  proof (intro allI impI)
    fix vs r
    assume p: "parse_elements s = Some (vs, r)"
    then obtain v r0 where v: "parse_value s = Some (v, r0)"
      by (subst (asm) parse_elements.simps) (auto split: option.splits)
    with 3(1) have l0: "length r0 < length s" by auto
    from p v obtain d ds where sk: "skip_ws r0 = d # ds"
      by (subst (asm) parse_elements.simps) (cases "skip_ws r0", auto)
    then have l1: "length ds < length r0" by (rule skip_ws_Cons_length)
    show "length r < length s"
    proof (cases "d = 0x5D")
      case True
      with p v sk have "r = ds"
        by (subst (asm) parse_elements.simps) auto
      with l0 l1 show ?thesis by simp
    next
      case False
      with p v sk have c: "d = 0x2C \<and> length ds < length s"
        and "\<exists>vs'. parse_elements ds = Some (vs', r)"
        by (subst (asm) parse_elements.simps, auto split: if_splits option.splits)+
      then obtain vs' where "parse_elements ds = Some (vs', r)" by blast
      with 3(2) [OF v refl sk False c] l0 l1 show ?thesis by auto
    qed
  qed
next
  case (4 s)
  show ?case
  proof (intro allI impI)
    fix ms r
    assume p: "parse_members s = Some (ms, r)"
    then obtain q cs where sk: "skip_ws s = q # cs"
      by (subst (asm) parse_members.simps) (cases "skip_ws s", auto)
    from p sk have q: "\<not> q \<noteq> 0x22"
      by (subst (asm) parse_members.simps) (auto split: if_splits)
    from p sk q obtain k r0 where k: "parse_chars cs = Some (k, r0)"
      by (subst (asm) parse_members.simps) (auto split: option.splits)
    from p sk q k obtain col r1 where sk1: "skip_ws r0 = col # r1"
      by (subst (asm) parse_members.simps) (cases "skip_ws r0", auto)
    from p sk q k sk1 have g: "\<not> (col \<noteq> 0x3A \<or> \<not> length r1 < length s)"
      by (subst (asm) parse_members.simps) (auto split: if_splits)
    from p sk q k sk1 g obtain v r2 where v: "parse_value r1 = Some (v, r2)"
      by (subst (asm) parse_members.simps) (auto split: option.splits)
    from 4(1) [OF sk q k refl sk1 g] v have l2: "length r2 < length r1" by auto
    from p sk q k sk1 g v obtain d ds where sk2: "skip_ws r2 = d # ds"
      by (subst (asm) parse_members.simps) (cases "skip_ws r2", auto)
    then have l3: "length ds < length r2" by (rule skip_ws_Cons_length)
    show "length r < length s"
    proof (cases "d = 0x7D")
      case True
      with p sk q k sk1 g v sk2 have "r = ds"
        by (subst (asm) parse_members.simps) auto
      with g l2 l3 show ?thesis by simp
    next
      case False
      with p sk q k sk1 g v sk2 have c: "d = 0x2C \<and> length ds < length s"
        and "\<exists>ms'. parse_members ds = Some (ms', r)"
        by (subst (asm) parse_members.simps, auto split: if_splits option.splits)+
      then obtain ms' where "parse_members ds = Some (ms', r)" by blast
      with 4(2) [OF sk q k refl sk1 g v refl sk2 False c] c show ?thesis by auto
    qed
  qed
qed


lemma parse_value_shorter: "parse_value s = Some (v, r) \<Longrightarrow> length r < length s"
  using parse_shorter(1) by blast

lemma parse_elements_unguarded:
  "parse_elements s =
     (case parse_value s of
        None \<Rightarrow> None
      | Some (v, r) \<Rightarrow>
          (case skip_ws r of
             [] \<Rightarrow> None
           | d # ds \<Rightarrow>
               if d = 0x5D then Some ([v], ds)
               else if d = 0x2C then
                 (case parse_elements ds of
                    None \<Rightarrow> None
                  | Some (vs, r') \<Rightarrow> Some (v # vs, r'))
               else None))"
proof (cases "parse_value s")
  case None
  then show ?thesis by (subst parse_elements.simps) simp
next
  case (Some a)
  obtain v r where a: "a = (v, r)" by (cases a)
  with Some have l: "length r < length s" by (auto dest: parse_value_shorter)
  show ?thesis
  proof (cases "skip_ws r")
    case Nil
    with Some a show ?thesis by (subst parse_elements.simps) simp
  next
    case (Cons d ds)
    then have "length ds < length r" by (rule skip_ws_Cons_length)
    with l have "length ds < length s" by simp
    with Some a Cons show ?thesis by (subst parse_elements.simps) simp
  qed
qed

lemma parse_members_unguarded:
  "parse_members s =
     (case skip_ws s of
        [] \<Rightarrow> None
      | q # cs \<Rightarrow>
          if q \<noteq> 0x22 then None
          else
            (case parse_chars cs of
               None \<Rightarrow> None
             | Some (k, r) \<Rightarrow>
                 (case skip_ws r of
                    [] \<Rightarrow> None
                  | col # r1 \<Rightarrow>
                      if col \<noteq> 0x3A then None
                      else
                        (case parse_value r1 of
                           None \<Rightarrow> None
                         | Some (v, r2) \<Rightarrow>
                             (case skip_ws r2 of
                                [] \<Rightarrow> None
                              | d # ds \<Rightarrow>
                                  if d = 0x7D then Some ([(k, v)], ds)
                                  else if d = 0x2C then
                                    (case parse_members ds of
                                       None \<Rightarrow> None
                                     | Some (ms, r') \<Rightarrow> Some ((k, v) # ms, r'))
                                  else None)))))"
proof -
  have g1: "length r1 < length s"
    if "skip_ws s = q # cs" "parse_chars cs = Some (k, r)" "skip_ws r = col # r1"
    for q cs k r col r1
  proof -
    from that(1) have "length cs < length s" by (rule skip_ws_Cons_length)
    moreover from that(2) have "length r < length cs" by (rule parse_chars_shorter)
    moreover from that(3) have "length r1 < length r" by (rule skip_ws_Cons_length)
    ultimately show ?thesis by simp
  qed
  have g2: "length ds < length s"
    if "length r1 < length s" "parse_value r1 = Some (v, r2)" "skip_ws r2 = d # ds"
    for r1 v r2 d ds
  proof -
    from that(2) have "length r2 < length r1" by (rule parse_value_shorter)
    moreover from that(3) have "length ds < length r2" by (rule skip_ws_Cons_length)
    ultimately show ?thesis using that(1) by simp
  qed
  show ?thesis
    by (subst parse_members.simps)
       (auto split: list.splits option.splits dest: g1 g2)
qed

subsection \<open>Strings\<close>

lemma unat_of_nat_small: "n < 65536 \<Longrightarrow> unat (of_nat n :: 16 word) = n"
  by (simp add: unat_of_nat)

lemma unat_hex_digit: "d < 16 \<Longrightarrow> unat (hex_digit d) = (if d < 10 then 0x30 + d else 0x61 + (d - 10))"
  unfolding hex_digit_def by (rule trans [OF unat_of_nat_small]) auto

lemma hex_val_hex_digit: "d < 16 \<Longrightarrow> hex_val (hex_digit d) = Some d"
  by (auto simp: hex_val_def unat_hex_digit)

lemma nibbles:
  "((n div 4096 * 16 + n div 256 mod 16) * 16 + n div 16 mod 16) * 16 + n mod 16 = (n::nat)"
proof -
  have a: "n div 256 = n div 16 div 16"
    by (simp add: div_mult2_eq [symmetric])
  have b: "n div 4096 = n div 16 div 16 div 16"
    by (simp add: div_mult2_eq [symmetric])
  have c: "m div 16 * 16 + m mod 16 = m" for m :: nat
    by (rule div_mult_mod_eq)
  show ?thesis
    by (simp only: a b c)
qed

lemma hex4_UnicodeEscape:
  "hex4 [hex_digit (unat c div 4096), hex_digit (unat c div 256 mod 16),
         hex_digit (unat c div 16 mod 16), hex_digit (unat c mod 16)] = Some c"
proof -
  have lt: "unat c < 65536" using unsigned_less [of c, where 'a = nat] by simp
  then have d: "unat c div 4096 < 16" by simp
  show ?thesis
    using nibbles [of "unat c"] by (simp add: hex4_def hex_val_hex_digit d)
qed


lemma parse_chars_plain:
  "c \<noteq> 0x22 \<Longrightarrow> c \<noteq> 0x5C \<Longrightarrow> \<not> unat c < 0x20 \<Longrightarrow>
   parse_chars (c # r) = cons_char c (parse_chars r)"
  by simp

lemma surrogate_plain:
  assumes "is_leading_surrogate c \<or> is_trailing_surrogate c"
  shows "c \<noteq> 0x22" "c \<noteq> 0x5C" "\<not> unat c < 0x20"
  using assms by (auto simp: is_leading_surrogate_def is_trailing_surrogate_def)

lemma parse_chars_UnicodeEscape:
  "parse_chars (UnicodeEscape c @ r) = cons_char c (parse_chars r)"
  by (simp add: UnicodeEscape_def hex4_UnicodeEscape)


lemma parse_chars_quote_unit:
  "parse_chars (quote_unit c @ r) = cons_char c (parse_chars r)"
  by (simp add: quote_unit_def unescape_def parse_chars_UnicodeEscape)


lemma parse_chars_quote_units:
  "parse_chars (quote_units s @ 0x22 # rest) = Some (s, rest)"
proof (induction s rule: quote_units.induct)
  case 1
  show ?case by simp
next
  case (2 c)
  have "parse_chars (quote_unit c @ 0x22 # rest) = cons_char c (parse_chars (0x22 # rest))"
    by (rule parse_chars_quote_unit)
  then show ?case by (simp add: cons_char_def del: parse_chars.simps) simp
next
  case (3 c d cs)
  show ?case
  proof (cases "is_leading_surrogate c \<and> is_trailing_surrogate d")
    case True
    have "parse_chars (c # d # quote_units cs @ 0x22 # rest)
        = cons_char c (parse_chars (d # quote_units cs @ 0x22 # rest))"
      using True surrogate_plain [of c] by (intro parse_chars_plain) auto
    also have "parse_chars (d # quote_units cs @ 0x22 # rest)
        = cons_char d (parse_chars (quote_units cs @ 0x22 # rest))"
      using True surrogate_plain [of d] by (intro parse_chars_plain) auto
    finally show ?thesis
      using True 3(1) by (simp add: cons_char_def del: parse_chars.simps)
  next
    case False
    then have q: "quote_units (c # d # cs) = quote_unit c @ quote_units (d # cs)"
      by auto
    have "parse_chars ((quote_unit c @ quote_units (d # cs)) @ 0x22 # rest)
        = cons_char c (Some (d # cs, rest))"
      using parse_chars_quote_unit [of c "quote_units (d # cs) @ 0x22 # rest"] 3(2) [OF False]
      by (simp only: append_assoc)
    then show ?thesis
      by (simp only: q cons_char_def option.case prod.case)
  qed
qed

lemma parse_value_string:
  "parse_value (QuoteJSONString s @ rest) = Some (JString s, rest)"
  by (simp add: parse_value.simps QuoteJSONString_def is_json_ws_def parse_chars_quote_units)

subsection \<open>Numbers\<close>

lemma unat_digit_char: "d < 10 \<Longrightarrow> unat (digit_char d) = 0x30 + d"
  unfolding digit_char_def by (rule unat_of_nat_small) simp

lemma is_digit_char: "d < 10 \<Longrightarrow> is_digit (digit_char d)"
  by (simp add: is_digit_def unat_digit_char)

lemma digits_all: "\<forall>c \<in> set (digits n). is_digit c"
proof (induction n rule: digits.induct)
  case (1 n)
  show ?case
  proof (cases "n < 10")
    case True
    then show ?thesis by (subst digits.simps) (simp add: is_digit_char)
  next
    case False
    have "n mod 10 < 10" by simp
    then have "is_digit (digit_char (n mod 10))" by (rule is_digit_char)
    with False 1 show ?thesis by (subst digits.simps) simp
  qed
qed

lemma digits_nonempty: "digits n \<noteq> []"
  by (subst digits.simps) simp

lemma hd_digits: "0 < n \<Longrightarrow> hd (digits n) \<noteq> 0x30"
proof (induction n rule: digits.induct)
  case (1 n)
  show ?case
  proof (cases "n < 10")
    case True
    have "unat (hd (digits n)) = 0x30 + n"
      using True by (subst digits.simps) (simp add: unat_digit_char)
    with 1(2) show ?thesis by auto
  next
    case False
    then have "0 < n div 10" by simp
    with 1(1) False have "hd (digits (n div 10)) \<noteq> 0x30" by simp
    with False show ?thesis
      by (subst digits.simps) (simp add: digits_nonempty)
  qed
qed

lemma digits_val_snoc: "digits_val (xs @ [d]) = 10 * digits_val xs + (unat d - 0x30)"
  by (simp add: digits_val_def)

lemma digits_val_digits: "digits_val (digits n) = n"
proof (induction n rule: digits.induct)
  case (1 n)
  show ?case
  proof (cases "n < 10")
    case True
    then show ?thesis
      by (subst digits.simps) (simp add: digits_val_def unat_digit_char)
  next
    case False
    have "n mod 10 < 10" by simp
    then have u: "unat (digit_char (n mod 10)) = 0x30 + n mod 10"
      by (rule unat_digit_char)
    from False 1 have "digits_val (digits (n div 10)) = n div 10" by simp
    with False u show ?thesis
      by (subst digits.simps) (simp add: digits_val_snoc)
  qed
qed

lemma takeWhile_digits:
  "\<not> is_digit c \<Longrightarrow> takeWhile is_digit (digits n @ c # r) = digits n"
  using digits_all [of n] by (simp add: takeWhile_append2)

lemma dropWhile_digits:
  "\<not> is_digit c \<Longrightarrow> dropWhile is_digit (digits n @ c # r) = c # r"
  using digits_all [of n] by (simp add: dropWhile_append2)

lemma parse_int_part_digits:
  assumes "\<not> is_digit c"
  shows "parse_int_part (digits n @ c # r) = Some (n, c # r)"
proof (cases "n = 0")
  case True
  have "digits 0 = [0x30]" by (subst digits.simps) (simp add: digit_char_def)
  with True show ?thesis by (simp add: parse_int_part_def)
next
  case False
  obtain d ds where ds: "digits n = d # ds"
    using digits_nonempty [of n] by (cases "digits n") auto
  from False have "hd (digits n) \<noteq> 0x30" by (simp add: hd_digits)
  with ds have d0: "d \<noteq> 0x30" by simp
  from ds digits_all [of n] have dd: "is_digit d" by simp
  have "parse_int_part (digits n @ c # r)
      = Some (digits_val (takeWhile is_digit (digits n @ c # r)),
              dropWhile is_digit (digits n @ c # r))"
    using d0 dd by (simp add: parse_int_part_def ds)
  then show ?thesis
    using assms by (simp add: takeWhile_digits dropWhile_digits digits_val_digits)
qed

lemma parse_unsigned_digits:
  "parse_unsigned (digits n @ 0x7D # r) = Some (of_nat n, 0x7D # r)"
proof -
  have "\<not> is_digit 0x7D" by (simp add: is_digit_def)
  then have "parse_int_part (digits n @ 0x7D # r) = Some (n, 0x7D # r)"
    by (rule parse_int_part_digits)
  then show ?thesis
    by (simp add: parse_unsigned_def parse_frac_part_def parse_exp_part_def scale_def)
qed

lemma digit_not_minus: "is_digit d \<Longrightarrow> d \<noteq> 0x2D"
  by (auto simp: is_digit_def)

lemma parse_number_to_string:
  "parse_number (number_to_string t @ 0x7D # r) = Some (of_int t, 0x7D # r)"
proof (cases "t < 0")
  case True
  then have "of_nat (nat (- t)) = - (of_int t :: rat)"
    by simp
  with True show ?thesis
    by (simp add: number_to_string_def parse_number_def parse_unsigned_digits)
next
  case False
  obtain d ds where ds: "digits (nat t) = d # ds"
    using digits_nonempty [of "nat t"] by (cases "digits (nat t)") auto
  from ds digits_all [of "nat t"] have "is_digit d" by simp
  then have d: "d \<noteq> 0x2D" by (rule digit_not_minus)
  have "parse_number (digits (nat t) @ 0x7D # r) = parse_unsigned (digits (nat t) @ 0x7D # r)"
    using d by (simp add: parse_number_def ds)
  with False show ?thesis
    by (simp add: number_to_string_def parse_unsigned_digits)
qed

lemma number_to_string_first:
  "\<exists>c cs. number_to_string t = c # cs \<and> (c = 0x2D \<or> is_digit c)"
proof (cases "t < 0")
  case True
  then show ?thesis by (simp add: number_to_string_def)
next
  case False
  obtain d ds where ds: "digits (nat t) = d # ds"
    using digits_nonempty [of "nat t"] by (cases "digits (nat t)") auto
  from ds digits_all [of "nat t"] have "is_digit d" by simp
  with False ds show ?thesis by (simp add: number_to_string_def)
qed

lemma number_start_dispatch:
  assumes "c = 0x2D \<or> is_digit c"
  shows "parse_value (c # cs) =
    (case parse_number (c # cs) of None \<Rightarrow> None | Some (x, r) \<Rightarrow> Some (JNumber x, r))"
proof -
  from assms have "\<not> is_json_ws c" "c \<noteq> 0x22" "c \<noteq> 0x5B" "c \<noteq> 0x7B"
      "c \<noteq> 0x74" "c \<noteq> 0x66" "c \<noteq> 0x6E"
    by (auto simp: is_digit_def is_json_ws_def)
  then show ?thesis
    by (simp add: parse_value.simps js_def)
qed

lemma parse_value_number:
  "parse_value (number_to_string t @ 0x7D # r) = Some (JNumber (of_int t), 0x7D # r)"
proof -
  obtain c cs where nc: "number_to_string t = c # cs" and cc: "c = 0x2D \<or> is_digit c"
    using number_to_string_first by blast
  have "parse_value (c # (cs @ 0x7D # r)) =
      (case parse_number (c # (cs @ 0x7D # r)) of
         None \<Rightarrow> None | Some (x, r) \<Rightarrow> Some (JNumber x, r))"
    using cc by (rule number_start_dispatch)
  moreover have "parse_number (c # (cs @ 0x7D # r)) = Some (of_int t, 0x7D # r)"
    using parse_number_to_string [of t r] by (simp add: nc)
  ultimately show ?thesis by (simp add: nc)
qed

subsection \<open>Records and sequences\<close>

lemma skip_ws_quote: "skip_ws (0x22 # s) = 0x22 # s" "skip_ws (0x3A # s) = 0x3A # s"
  "skip_ws (0x2C # s) = 0x2C # s" "skip_ws (0x7D # s) = 0x7D # s" "skip_ws (0x5D # s) = 0x5D # s"
  "skip_ws (0x7B # s) = 0x7B # s"
  by (simp_all add: skip_ws_def is_json_ws_def)

lemma parse_members_string_more:
  "parse_members (QuoteJSONString k @ 0x3A # QuoteJSONString v @ 0x2C # rst) =
     (case parse_members rst of
        None \<Rightarrow> None
      | Some (ms, r') \<Rightarrow> Some ((k, JString v) # ms, r'))"
proof -
  have v: "parse_value (QuoteJSONString v @ 0x2C # rst) = Some (JString v, 0x2C # rst)"
    by (rule parse_value_string)
  show ?thesis
    by (subst parse_members.simps)
       (simp add: QuoteJSONString_def skip_ws_quote parse_chars_quote_units
          v [unfolded QuoteJSONString_def, simplified])
qed

lemma parse_members_number_last:
  "parse_members (QuoteJSONString k @ 0x3A # number_to_string t @ 0x7D # rest) =
     Some ([(k, JNumber (of_int t))], rest)"
  by (subst parse_members.simps)
     (simp add: QuoteJSONString_def skip_ws_quote parse_chars_quote_units parse_value_number)

lemma key_neq: "js ''id'' \<noteq> js ''url''" "js ''id'' \<noteq> js ''prompt''" "js ''id'' \<noteq> js ''timestamp''"
  "js ''url'' \<noteq> js ''prompt''" "js ''url'' \<noteq> js ''timestamp''" "js ''prompt'' \<noteq> js ''timestamp''"
  by (simp_all add: js_def)

lemma parse_members_image:
  "parse_members
     (member ''id'' (QuoteJSONString (id' img))
      @ 0x2C # member ''url'' (QuoteJSONString (url img))
      @ 0x2C # member ''prompt'' (QuoteJSONString (prompt img))
      @ 0x2C # member ''timestamp'' (number_to_string (timestamp img))
      @ 0x7D # rest) =
   Some ([(js ''id'', JString (id' img)), (js ''url'', JString (url img)),
          (js ''prompt'', JString (prompt img)),
          (js ''timestamp'', JNumber (of_int (timestamp img)))], rest)"
  by (simp only: member_def append_assoc append_Cons parse_members_string_more
        parse_members_number_last option.case prod.case)

lemma parse_value_image:
  "parse_value (stringify_image img @ rest) = Some (json_of_image img, rest)"
proof -
  let ?m = "member ''id'' (QuoteJSONString (id' img))
      @ 0x2C # member ''url'' (QuoteJSONString (url img))
      @ 0x2C # member ''prompt'' (QuoteJSONString (prompt img))
      @ 0x2C # member ''timestamp'' (number_to_string (timestamp img))
      @ 0x7D # rest"
  obtain ms where ms: "?m = 0x22 # ms"
    by (simp add: member_def QuoteJSONString_def)
  have s: "stringify_image img @ rest = 0x7B # ?m"
    by (simp add: stringify_image_def)
  have "parse_value (0x7B # 0x22 # ms) =
      (case parse_members (0x22 # ms) of
         None \<Rightarrow> None
       | Some (ms, r) \<Rightarrow> Some (JObject (foldl (\<lambda>ps (k, v). set_property k v ps) [] ms), r))"
    by (simp add: parse_value.simps is_json_ws_def skip_ws_quote)
  then show ?thesis
    using key_neq
    by (simp only: s ms [symmetric] parse_members_image) (simp add: json_of_image_def)
qed

lemma parse_elements_images:
  "parse_elements (join_comma (map stringify_image (x # xs)) @ 0x5D # rest) =
     Some (map json_of_image (x # xs), rest)"
proof (induction xs arbitrary: x)
  case Nil
  show ?case
    by (subst parse_elements.simps) (simp add: parse_value_image skip_ws_quote)
next
  case (Cons y ys)
  have "parse_elements (stringify_image x @ 0x2C # join_comma (map stringify_image (y # ys)) @ 0x5D # rest)
      = Some (json_of_image x # map json_of_image (y # ys), rest)"
    using Cons.IH [of y]
    by (subst parse_elements.simps) (simp add: parse_value_image skip_ws_quote)
  then show ?case by simp
qed

lemma stringify_image_first: "\<exists>cs. stringify_image img = 0x7B # cs"
  by (simp add: stringify_image_def)

lemma JSON_parse_stringify:
  "JSON_parse (JSON_stringify imgs) = Some (json_of_images imgs)"
proof (cases imgs)
  case Nil
  then show ?thesis
    by (simp add: JSON_parse_def JSON_stringify_def json_of_images_def parse_value.simps
        is_json_ws_def skip_ws_def)
next
  case (Cons x xs)
  obtain cs where cs: "join_comma (map stringify_image (x # xs)) @ [0x5D] = 0x7B # cs"
    using stringify_image_first [of x] by (cases xs) auto
  have "parse_value (0x5B # 0x7B # cs) =
      (case parse_elements (0x7B # cs) of None \<Rightarrow> None | Some (vs, r) \<Rightarrow> Some (JArray vs, r))"
    by (simp add: parse_value.simps is_json_ws_def skip_ws_quote)
  moreover have "parse_elements (0x7B # cs) = Some (map json_of_image (x # xs), [])"
    using parse_elements_images [of x xs "[]"] by (simp only: cs)
  ultimately show ?thesis
    using cs by (simp add: JSON_parse_def JSON_stringify_def json_of_images_def Cons skip_ws_def)
qed

lemma json_of_image_inject: "json_of_image a = json_of_image b \<Longrightarrow> a = b"
  by (simp add: json_of_image_def)

lemma json_of_images_inject: "json_of_images xs = json_of_images ys \<Longrightarrow> xs = ys"
proof -
  assume "json_of_images xs = json_of_images ys"
  then have "map json_of_image xs = map json_of_image ys"
    by (simp add: json_of_images_def)
  moreover have "inj json_of_image"
    by (rule injI) (rule json_of_image_inject)
  ultimately show "xs = ys"
    by simp
qed

lemma JSON_stringify_nonempty: "JSON_stringify imgs \<noteq> []"
  by (simp add: JSON_stringify_def)

text \<open>
  C6. For every sequence \<open>S\<close> of valid records and whatever the storage held before,
  saving \<open>S\<close> and loading gives back \<open>S\<close>: the loaded value is the run-time value of \<open>S\<close>
  (same records, same order) and of no other sequence; the key then holds the text of
  \<open>S\<close> alone, and a later save replaces an earlier one.
\<close>

theorem save_load_roundtrip:
  assumes "\<forall>img \<in> set S. valid_image img"
  shows "load_images (save_images S st) = json_of_images S
       \<and> (\<forall>S'. json_of_images S' = load_images (save_images S st) \<longrightarrow> S' = S)
       \<and> save_images S st images_key = Some (JSON_stringify S)
       \<and> save_images S (save_images S0 st) = save_images S st"
proof -
  have l: "load_images (save_images S st) = json_of_images S"
    by (simp add: load_images_def save_images_def JSON_stringify_nonempty JSON_parse_stringify)
  then show ?thesis
    by (auto simp: save_images_def dest: json_of_images_inject)
qed

theorem save_load_roundtrip_witness:
  "load_images (save_images [owl, fox] null_store) = json_of_images [owl, fox]
   \<and> load_images (save_images [] null_store) = json_of_images []"
proof -
  have a: "\<forall>img \<in> set [owl, fox]. valid_image img"
    by (simp add: valid_image_def owl_def fox_def)
  have b: "\<forall>img \<in> set []. valid_image img"
    by simp
  show ?thesis
    using save_load_roundtrip [OF a, of null_store] save_load_roundtrip [OF b, of null_store]
    by simp
qed

lemma JSON_parse_null: "JSON_parse (js ''null'') = Some JNull"
  by (simp add: JSON_parse_def parse_value.simps js_def is_json_ws_def skip_ws_def)

lemma JSON_parse_cut: "JSON_parse (js ''[{'') = None"
  by (simp add: JSON_parse_def parse_value.simps parse_elements.simps parse_members.simps
      js_def is_json_ws_def skip_ws_def)

text \<open>
  The load effect is written to survive bad stored data: an absent key and an empty text
  are skipped, and a text that is not well-formed JSON ends in the \<^verbatim>\<open>catch\<close> block
  (``Failed to parse saved images''); in each case the images sequence stays empty.
\<close>

lemma load_images_fallback:
  "st images_key = None \<or> st images_key = Some []
     \<or> (\<exists>saved. st images_key = Some saved \<and> JSON_parse saved = None)
   \<Longrightarrow> load_images st = json_of_images []"
  by (auto simp: load_images_def json_of_images_def)

lemma load_images_fallback_examples:
  "load_images no_store = json_of_images []" "load_images cut_store = json_of_images []"
  by (rule load_images_fallback, simp add: no_store_def cut_store_def JSON_parse_cut)+

text \<open>
  C7. After the load the images sequence should be empty whenever the stored text does
  not parse as a sequence of records. The code misses the texts that are well-formed JSON
  of another shape: nothing looks at what \<^verbatim>\<open>JSON.parse\<close> returned. The stored text \<^verbatim>\<open>null\<close>
  parses, and the hook \<^verbatim>\<open>images\<close>, typed \<^verbatim>\<open>GeneratedImage[]\<close>, holds \<^verbatim>\<open>null\<close>
  after the load, not the empty sequence.
\<close>

theorem load_images_wrong_shape:
  "JSON_parse (js ''null'') = Some JNull
   \<and> load_images null_store = JNull
   \<and> load_images null_store \<noteq> json_of_images []"
  by (simp add: load_images_def null_store_def JSON_parse_null json_of_images_def)
     (simp add: js_def)

text \<open>
  C10. When the user declines the confirmation, \<^verbatim>\<open>clearHistory\<close> leaves every hook as it
  was, so no effect runs and the storage is unchanged; when the user confirms, the
  images sequence is empty afterwards, whatever it held.
\<close>

theorem clearHistory_gate:
  "clearHistory False s = s
   \<and> rerender s (clearHistory False s) st = st
   \<and> images (clearHistory True s) = []"
  by (simp add: clearHistory_def rerender_def)

end
